theory Spec2Isabelle
  imports Main
begin

section \<open>The text diff editor pane (textDiffEditor.ts)\<close>

text \<open>
  A shallow embedding of \<^verbatim>\<open>TextDiffEditor\<close> and \<^verbatim>\<open>NavigateAction\<close>.
  The pane is a record of its fields; every method is a function from the pane to the
  updated pane. Calls the pane makes on its collaborators (the diff editor widget, the
  editor service, the options object, the navigator) are appended to the field
  \<open>calls\<close>, oldest first. Navigator objects live in the list \<open>navigators\<close>; the
  index of a navigator in that list is its identity.
\<close>

subsection \<open>Inputs, options, models, errors\<close>

text \<open>
  An editor input object. \<open>StringEditorInput\<close> and \<open>ResourceEditorInput\<close> stand for
  the instances of these classes (\<^verbatim>\<open>instanceof\<close>), \<open>OtherEditorInput\<close> for every
  other input. A name or description is \<open>None\<close> when the getter returns null.
  An input reference pairs the address of the object with the object: the source
  compares references (\<^verbatim>\<open>!==\<close>), the model compares addresses.
\<close>

datatype editor_input =
    DiffEditorInput (getName: "string option") (getDescription: "string option")
      "nat \<times> editor_input" "nat \<times> editor_input" bool
  | StringEditorInput (getName: "string option") (getDescription: "string option")
  | ResourceEditorInput (getName: "string option") (getDescription: "string option")
  | OtherEditorInput (getName: "string option") (getDescription: "string option")

type_synonym input_ref = "nat \<times> editor_input"

text \<open>The \<^verbatim>\<open>instanceof\<close> tests the pane makes on inputs.\<close>

fun is_DiffEditorInput :: "editor_input \<Rightarrow> bool" where
  "is_DiffEditorInput (DiffEditorInput nm ds originalInput modifiedInput b) = True"
| "is_DiffEditorInput i = False"

fun is_StringEditorInput :: "editor_input \<Rightarrow> bool" where
  "is_StringEditorInput (StringEditorInput nm ds) = True"
| "is_StringEditorInput i = False"

fun is_ResourceEditorInput :: "editor_input \<Rightarrow> bool" where
  "is_ResourceEditorInput (ResourceEditorInput nm ds) = True"
| "is_ResourceEditorInput i = False"

text \<open>
  The options classes: \<open>TextDiffEditorOptions\<close> extends \<open>TextEditorOptions\<close> extends
  \<open>EditorOptions\<close>. \<open>autoRevealFirstChange\<close> is \<open>None\<close> when undefined or null.
\<close>

datatype editor_options =
    EditorOptions (forceOpen: bool)
  | TextEditorOptions (forceOpen: bool)
  | TextDiffEditorOptions (forceOpen: bool) (autoRevealFirstChange: "bool option")

text \<open>\<^verbatim>\<open>types.isFunction(options.apply)\<close>: the text options carry an apply method.\<close>

fun has_apply :: "editor_options \<Rightarrow> bool" where
  "has_apply (EditorOptions f) = False"
| "has_apply (TextEditorOptions f) = True"
| "has_apply (TextDiffEditorOptions f a) = True"

text \<open>
  What \<^verbatim>\<open>input.resolve(true)\<close> yields: a \<open>TextDiffEditorModel\<close> wrapping the
  diff model with the given identity, or a model object of another class.
\<close>

datatype editor_model = TextDiffEditorModel nat | OtherEditorModel

fun is_TextDiffEditorModel :: "editor_model \<Rightarrow> bool" where
  "is_TextDiffEditorModel (TextDiffEditorModel m) = True"
| "is_TextDiffEditorModel OtherEditorModel = False"

text \<open>
  The field \<^verbatim>\<open>textDiffEditorModel\<close> read through the cast: undefined (\<open>None\<close>) on
  a model of another class.
\<close>

fun textDiffEditorModel :: "editor_model \<Rightarrow> nat option" where
  "textDiffEditorModel (TextDiffEditorModel m) = Some m"
| "textDiffEditorModel OtherEditorModel = None"

datatype file_operation_result = FILE_IS_BINARY | FILE_IS_DIRECTORY | FILE_NOT_FOUND
  | FILE_NOT_MODIFIED_SINCE | FILE_MODIFIED_SINCE | FILE_MOVE_CONFLICT | FILE_READ_ONLY
  | FILE_TOO_LARGE

text \<open>
  A rejection value: an error object, with its \<^verbatim>\<open>fileOperationResult\<close> when it has
  one, or an array of rejection values.
\<close>

datatype resolve_error =
    ErrorObject string "file_operation_result option"
  | ErrorArray "resolve_error list"

fun isFileBinaryError :: "resolve_error \<Rightarrow> bool" where
  "isFileBinaryError (ErrorArray errors) = list_ex isFileBinaryError errors"
| "isFileBinaryError (ErrorObject msg r) = (r = Some FILE_IS_BINARY)"

subsection \<open>The host: what the pane reads from code outside this file\<close>

record editor_opts =
  readOnly :: bool
  ariaLabel :: string

text \<open>
  \<open>matches h a b\<close> is \<^verbatim>\<open>a.matches(b)\<close> (\<open>b\<close> is \<open>None\<close> for null),
  \<open>localize h key message args\<close> is \<^verbatim>\<open>nls.localize(key, message, ...args)\<close>,
  \<open>baseCodeEditorOptions h\<close> is what \<^verbatim>\<open>super.getCodeEditorOptions()\<close> returns
  (the fields this file writes).
\<close>

record host =
  matches :: "input_ref \<Rightarrow> input_ref option \<Rightarrow> bool"
  localize :: "string \<Rightarrow> string \<Rightarrow> string list \<Rightarrow> string"
  baseCodeEditorOptions :: editor_opts

subsection \<open>Navigator, actions, pane\<close>

text \<open>
  A \<open>DiffNavigator\<close> object as far as the pane touches it. \<open>created_for\<close> is the
  address of the input whose load created the navigator (not a field of the source
  object: it records the history).
\<close>

record navigator =
  alwaysRevealFirst :: bool
  disposed :: bool
  created_for :: nat

record navigate_action =
  action_id :: string
  label :: string
  cssClass :: string
  enabled :: bool
  is_next :: bool

datatype call =
    Resolve input_ref
  | ApplyOptions editor_options
  | SetModel "nat option"
  | UpdateOptions editor_opts
  | UpdateRenderSideBySide "bool option"
  | OpenEditor editor_input "editor_options option" nat
  | NavigatorNext nat
  | NavigatorPrevious nat

text \<open>
  The pane after \<^verbatim>\<open>createEditorControl\<close>. \<open>pending\<close> holds the loads started by
  \<^verbatim>\<open>setInput\<close> whose promise has not settled yet, each with the arguments its
  callbacks close over.
\<close>

record pane =
  input :: "input_ref option"
  options :: "editor_options option"
  position :: nat
  diffNavigator :: "nat option"
  navigators :: "navigator list"
  nextDiffAction :: navigate_action
  previousDiffAction :: navigate_action
  pending :: "(input_ref \<times> editor_options option) list"
  calls :: "call list"

text \<open>The remaining loads once the \<open>k\<close>-th has completed.\<close>

definition without :: "nat \<Rightarrow> 'a list \<Rightarrow> 'a list" where
  "without k xs = take k xs @ drop (Suc k) xs"

datatype exn = TypeError

datatype settlement = Fulfilled | Rejected resolve_error

datatype outcome = Resolved editor_model | Failed resolve_error

subsection \<open>NavigateAction\<close>

definition NavigateAction :: "host \<Rightarrow> bool \<Rightarrow> navigate_action" where
  "NavigateAction h nxt =
     \<lparr> action_id = (if nxt then ''workbench.action.compareEditor.nextChange''
                      else ''workbench.action.compareEditor.previousChange''),
       label = (if nxt then localize h ''navigate.next.label'' ''Next Change'' []
                else localize h ''navigate.prev.label'' ''Previous Change'' []),
       cssClass = (if nxt then ''textdiff-editor-action next''
                   else ''textdiff-editor-action previous''),
       enabled = False,
       is_next = nxt \<rparr>"

text \<open>
  \<^verbatim>\<open>run\<close>: the call goes to \<^verbatim>\<open>this.editor.getDiffNavigator()\<close>; on a pane whose
  navigator field is still undefined the member access throws.
\<close>

definition run :: "pane \<Rightarrow> navigate_action \<Rightarrow> exn + pane" where
  "run s a =
     (if is_next a then
        (case diffNavigator s of
           None \<Rightarrow> Inl TypeError
         | Some n \<Rightarrow> Inr (s\<lparr>calls := calls s @ [NavigatorNext n]\<rparr>))
      else
        (case diffNavigator s of
           None \<Rightarrow> Inl TypeError
         | Some n \<Rightarrow> Inr (s\<lparr>calls := calls s @ [NavigatorPrevious n]\<rparr>)))"

text \<open>
  \<^verbatim>\<open>updateEnablement\<close>; \<open>canNavigate n\<close> is what \<^verbatim>\<open>canNavigate()\<close> of
  navigator \<open>n\<close> returns at the time of the call.
\<close>

definition updateEnablement ::
  "(nat \<Rightarrow> bool) \<Rightarrow> pane \<Rightarrow> navigate_action \<Rightarrow> exn + navigate_action" where
  "updateEnablement canNavigate s a =
     (case diffNavigator s of
        None \<Rightarrow> Inl TypeError
      | Some n \<Rightarrow> Inr (a\<lparr>enabled := canNavigate n\<rparr>))"

text \<open>The listener that \<^verbatim>\<open>setInput\<close> registers for the navigator's UPDATED event.\<close>

definition onUpdated :: "(nat \<Rightarrow> bool) \<Rightarrow> pane \<Rightarrow> exn + pane" where
  "onUpdated canNavigate s =
     (case updateEnablement canNavigate s (nextDiffAction s) of
        Inl e \<Rightarrow> Inl e
      | Inr a \<Rightarrow>
          (let s1 = s\<lparr>nextDiffAction := a\<rparr> in
           case updateEnablement canNavigate s1 (previousDiffAction s1) of
             Inl e \<Rightarrow> Inl e
           | Inr b \<Rightarrow> Inr (s1\<lparr>previousDiffAction := b\<rparr>)))"

subsection \<open>TextDiffEditor\<close>

text \<open>
  The pane once the constructor and \<^verbatim>\<open>createEditorControl\<close> have run, shown at
  position \<open>p\<close>: the two actions exist, nothing else does.
\<close>

definition createEditorControl :: "host \<Rightarrow> nat \<Rightarrow> pane" where
  "createEditorControl h p =
     \<lparr> input = None, options = None, position = p, diffNavigator = None,
       navigators = [],
       nextDiffAction = NavigateAction h True,
       previousDiffAction = NavigateAction h False,
       pending = [], calls = [] \<rparr>"

definition getTitle :: "host \<Rightarrow> pane \<Rightarrow> string option" where
  "getTitle h s =
     (case input s of
        Some i \<Rightarrow> getName (snd i)
      | None \<Rightarrow> Some (localize h ''textDiffEditor'' ''Text Diff Editor'' []))"

text \<open>A string is truthy when it is neither null nor empty.\<close>

fun truthy :: "string option \<Rightarrow> bool" where
  "truthy None = False"
| "truthy (Some n) = (n \<noteq> [])"

definition getCodeEditorOptions :: "host \<Rightarrow> pane \<Rightarrow> editor_opts" where
  "getCodeEditorOptions h s =
     (let opts = baseCodeEditorOptions h in
      case input s of
        Some (r, DiffEditorInput nm ds originalInput modifiedInput b) \<Rightarrow>
          (let ro = (is_StringEditorInput (snd modifiedInput)
                     \<or> is_ResourceEditorInput (snd modifiedInput));
               inputName = nm;
               aria =
                 (if ro then
                    (if truthy inputName
                     then localize h ''readonlyEditorWithInputAriaLabel''
                            ''{0}. Readonly text compare editor.'' [the inputName]
                     else localize h ''readonlyEditorAriaLabel''
                            ''Readonly text compare editor.'' [])
                  else
                    (if truthy inputName
                     then localize h ''editableEditorWithInputAriaLabel''
                            ''{0}. Text file compare editor.'' [the inputName]
                     else localize h ''editableEditorAriaLabel''
                            ''Text file compare editor.'' []))
           in opts\<lparr>readOnly := ro, ariaLabel := aria\<rparr>)
      | _ \<Rightarrow> opts)"

text \<open>\<^verbatim>\<open>if (this.diffNavigator) { this.diffNavigator.dispose(); }\<close>\<close>

definition disposeNavigator :: "pane \<Rightarrow> pane" where
  "disposeNavigator s =
     (case diffNavigator s of
        None \<Rightarrow> s
      | Some n \<Rightarrow>
          s\<lparr>navigators := (navigators s)[n := (navigators s ! n)\<lparr>disposed := True\<rparr>]\<rparr>)"

definition openAsBinary :: "pane \<Rightarrow> input_ref \<Rightarrow> editor_options option \<Rightarrow> pane \<times> bool" where
  "openAsBinary s inp opts =
     (case snd inp of
        DiffEditorInput nm ds originalInput modifiedInput b \<Rightarrow>
          (s\<lparr>calls := calls s @
                [OpenEditor (DiffEditorInput nm ds originalInput modifiedInput True)
                   opts (position s)]\<rparr>,
           True)
      | _ \<Rightarrow> (s, False))"

text \<open>
  Modelled from the spec: \<^verbatim>\<open>BaseEditor.setInput\<close>, which \<^verbatim>\<open>super.setInput\<close>
  reaches, is not in the sources; it makes the given input the pane's current input
  (the input that \<^verbatim>\<open>getInput()\<close> returns) and stores the options.
\<close>

definition super_setInput :: "pane \<Rightarrow> input_ref \<Rightarrow> editor_options option \<Rightarrow> pane" where
  "super_setInput s inp opts = s\<lparr>input := Some inp, options := opts\<rparr>"

text \<open>
  Modelled from the spec: \<^verbatim>\<open>BaseEditor.clearInput\<close>, which \<^verbatim>\<open>super.clearInput\<close>
  reaches, is not in the sources; it leaves the pane without a current input (the
  input is cleared) and without options.
\<close>

definition super_clearInput :: "pane \<Rightarrow> pane" where
  "super_clearInput s = s\<lparr>input := None, options := None\<rparr>"

text \<open>
  Modelled from the spec: \<^verbatim>\<open>BaseEditor.dispose\<close>, which \<^verbatim>\<open>super.dispose\<close> reaches,
  is not in the sources; the pane is torn down and holds no input afterwards.
\<close>

definition super_dispose :: "pane \<Rightarrow> pane" where
  "super_dispose s = s\<lparr>input := None, options := None\<rparr>"

text \<open>\<^verbatim>\<open>const forceOpen = options && options.forceOpen\<close>, read as a condition.\<close>

definition detect_forceOpen :: "editor_options option \<Rightarrow> bool" where
  "detect_forceOpen opts = (case opts of None \<Rightarrow> False | Some opt \<Rightarrow> forceOpen opt)"

text \<open>\<^verbatim>\<open>!this.getInput() || this.getInput() !== input\<close>\<close>

definition stale :: "pane \<Rightarrow> input_ref \<Rightarrow> bool" where
  "stale s inp = (case input s of None \<Rightarrow> True | Some cur \<Rightarrow> fst cur \<noteq> fst inp)"

text \<open>
  \<^verbatim>\<open>setInput\<close> up to the point where it returns its promise. The second component is
  \<open>Some Fulfilled\<close> for \<^verbatim>\<open>TPromise.as(null)\<close>, and \<open>None\<close> when the promise returned is
  the one of the load just started, which settles when \<open>settle\<close> runs its callback.
\<close>

definition setInput ::
  "host \<Rightarrow> pane \<Rightarrow> input_ref \<Rightarrow> editor_options option \<Rightarrow> pane \<times> settlement option" where
  "setInput h s inp opts =
     (let oldInput = input s;
          s1 = super_setInput s inp opts;
          force = detect_forceOpen opts
      in
        if \<not> force \<and> matches h inp oldInput then
          (case opts of
             None \<Rightarrow> (s1, Some Fulfilled)
           | Some textOptions \<Rightarrow>
               if has_apply textOptions
               then (s1\<lparr>calls := calls s1 @ [ApplyOptions textOptions]\<rparr>, Some Fulfilled)
               else (s1, Some Fulfilled))
        else
          (let s2 = disposeNavigator s1 in
           (s2\<lparr>calls := calls s2 @ [Resolve inp],
               pending := pending s2 @ [(inp, opts)]\<rparr>, None)))"

text \<open>The success callback of the load of \<open>inp\<close> with \<open>opts\<close>.\<close>

definition onResolved ::
  "host \<Rightarrow> pane \<Rightarrow> input_ref \<Rightarrow> editor_options option \<Rightarrow> editor_model \<Rightarrow> pane \<times> settlement" where
  "onResolved h s inp opts resolvedModel =
     (let (s0, opened) =
            (if \<not> is_TextDiffEditorModel resolvedModel then openAsBinary s inp opts
             else (s, False))
      in
        if opened then (s0, Fulfilled)
        else if stale s0 inp then (s0, Fulfilled)
        else
          (let s1 = s0\<lparr>calls := calls s0 @ [SetModel (textDiffEditorModel resolvedModel)]\<rparr>;
               autoReveal =
                 (case opts of
                    Some (TextDiffEditorOptions f a) \<Rightarrow>
                      (case a of Some v \<Rightarrow> v | None \<Rightarrow> True)
                  | _ \<Rightarrow> True);
               n = length (navigators s1);
               s2 = s1\<lparr>navigators := navigators s1 @
                          [\<lparr>alwaysRevealFirst = autoReveal, disposed = False,
                            created_for = fst inp\<rparr>],
                        diffNavigator := Some n\<rparr>;
               s3 = (case opts of
                       None \<Rightarrow> s2
                     | Some textOptions \<Rightarrow>
                         if has_apply textOptions
                         then s2\<lparr>calls := calls s2 @ [ApplyOptions textOptions]\<rparr>
                         else s2)
           in (s3\<lparr>calls := calls s3 @ [UpdateOptions (getCodeEditorOptions h s3)]\<rparr>,
               Fulfilled)))"

text \<open>The error callback of the load of \<open>inp\<close> with \<open>opts\<close>.\<close>

definition onRejected ::
  "pane \<Rightarrow> input_ref \<Rightarrow> editor_options option \<Rightarrow> resolve_error \<Rightarrow> pane \<times> settlement" where
  "onRejected s inp opts err =
     (let (s0, opened) =
            (if isFileBinaryError err then openAsBinary s inp opts else (s, False))
      in if opened then (s0, Fulfilled) else (s0, Rejected err))"

text \<open>
  The \<open>k\<close>-th pending load completes with the given outcome: its callback runs and the
  promise that \<^verbatim>\<open>setInput\<close> returned settles. Nothing happens when there is no such
  load.
\<close>

definition settle :: "host \<Rightarrow> pane \<Rightarrow> nat \<Rightarrow> outcome \<Rightarrow> pane \<times> settlement option" where
  "settle h s k out =
     (if k < length (pending s) then
        (let (inp, opts) = pending s ! k;
             s1 = s\<lparr>pending := without k (pending s)\<rparr>;
             (s2, r) = (case out of
                          Resolved m \<Rightarrow> onResolved h s1 inp opts m
                        | Failed err \<Rightarrow> onRejected s1 inp opts err)
         in (s2, Some r))
      else (s, None))"

definition clearInput :: "pane \<Rightarrow> pane" where
  "clearInput s =
     (let s1 = disposeNavigator s;
          s2 = s1\<lparr>calls := calls s1 @ [SetModel None]\<rparr>
      in super_clearInput s2)"

definition dispose :: "pane \<Rightarrow> pane" where
  "dispose s = super_dispose (disposeNavigator s)"

subsection \<open>Runs of the pane\<close>

datatype event =
    SetInput input_ref "editor_options option"
  | ClearInput
  | Dispose
  | Settle nat outcome
  | Updated nat "nat \<Rightarrow> bool"
  | RunAction bool

fun is_Updated :: "event \<Rightarrow> bool" where
  "is_Updated (Updated k canNavigate) = True"
| "is_Updated e = False"

text \<open>
  One event of the pane's life. \<open>Settle k out\<close>: the \<open>k\<close>-th pending load completes.
  \<open>Updated k canNavigate\<close>: navigator \<open>k\<close> emits UPDATED, at a time when
  \<^verbatim>\<open>canNavigate()\<close> of navigator \<open>n\<close> returns \<open>canNavigate n\<close>; the listener runs when
  navigator \<open>k\<close> exists. \<open>RunAction nxt\<close>: the next (or previous) action is run.
  An exception thrown by a listener or by an action's \<^verbatim>\<open>run\<close> leaves the pane as it
  was (the throw precedes every write).
\<close>

fun step :: "host \<Rightarrow> pane \<Rightarrow> event \<Rightarrow> pane" where
  "step h s (SetInput inp opts) = fst (setInput h s inp opts)"
| "step h s ClearInput = clearInput s"
| "step h s Dispose = dispose s"
| "step h s (Settle k out) = fst (settle h s k out)"
| "step h s (Updated k canNavigate) =
     (if k < length (navigators s)
      then (case onUpdated canNavigate s of Inl e \<Rightarrow> s | Inr s' \<Rightarrow> s')
      else s)"
| "step h s (RunAction nxt) =
     (case run s (if nxt then nextDiffAction s else previousDiffAction s) of
        Inl e \<Rightarrow> s | Inr s' \<Rightarrow> s')"

fun exec :: "host \<Rightarrow> pane \<Rightarrow> event list \<Rightarrow> pane" where
  "exec h s [] = s"
| "exec h s (e # es) = exec h (step h s e) es"

text \<open>
  The navigator field, once set, names a navigator that exists; it is unset only as
  long as no navigator has been created.
\<close>

definition navigator_known :: "pane \<Rightarrow> bool" where
  "navigator_known s =
     (case diffNavigator s of
        None \<Rightarrow> navigators s = []
      | Some n \<Rightarrow> n < length (navigators s))"

fun is_OpenEditor :: "call \<Rightarrow> bool" where
  "is_OpenEditor (OpenEditor i opts p) = True"
| "is_OpenEditor c = False"

text \<open>The navigators that are live: created and not yet disposed.\<close>

definition live :: "pane \<Rightarrow> nat list" where
  "live s = filter (\<lambda>n. \<not> disposed (navigators s ! n)) [0..<length (navigators s)]"

text \<open>
  A run without overlapping loads: \<^verbatim>\<open>setInput\<close> is only called when no load is in
  flight.
\<close>

fun no_overlap :: "host \<Rightarrow> pane \<Rightarrow> event list \<Rightarrow> bool" where
  "no_overlap h s [] = True"
| "no_overlap h s (e # es) =
     ((case e of SetInput inp opts \<Rightarrow> pending s = [] | _ \<Rightarrow> True)
      \<and> no_overlap h (step h s e) es)"

text \<open>
  Only the navigator that the pane holds can be live, at most one load is in flight, and
  no navigator is live while a load is in flight.
\<close>

definition one_at_a_time :: "pane \<Rightarrow> bool" where
  "one_at_a_time s =
     (navigator_known s
      \<and> set (live s) \<subseteq> set_option (diffNavigator s)
      \<and> length (pending s) \<le> 1
      \<and> (pending s = [] \<or> live s = []))"

subsection \<open>The toggle action of getSecondaryActions\<close>

text \<open>The diff editor widget as far as \<^verbatim>\<open>getSecondaryActions\<close> reads it.\<close>

record diff_editor =
  renderSideBySide :: bool

text \<open>
  The action object together with the variable \<^verbatim>\<open>inlineModeActive\<close> that its run
  callback closes over. The variable is \<open>None\<close> when it holds the null or undefined
  control itself (\<^verbatim>\<open>control && !control.renderSideBySide\<close> on a missing control).
\<close>

record toggle_action =
  toggle_id :: string
  toggle_label :: string
  toggle_enabled :: bool
  order :: nat
  inlineModeActive :: "bool option"

definition inlineLabel :: "host \<Rightarrow> string" where
  "inlineLabel h = localize h ''inlineDiffLabel'' ''Switch to Inline View'' []"

definition sideBySideLabel :: "host \<Rightarrow> string" where
  "sideBySideLabel h = localize h ''sideBySideDiffLabel'' ''Switch to Side by Side View'' []"

text \<open>Truthiness of the closure variable.\<close>

fun active :: "bool option \<Rightarrow> bool" where
  "active None = False"
| "active (Some b) = b"

text \<open>
  The action that \<^verbatim>\<open>getSecondaryActions\<close> creates and appends to the actions of the
  base class; \<open>control\<close> is what \<^verbatim>\<open>this.getControl()\<close> returns then.
\<close>

definition toggleEditorModeAction :: "host \<Rightarrow> diff_editor option \<Rightarrow> toggle_action" where
  "toggleEditorModeAction h control =
     (let inlineMode = (case control of
                          None \<Rightarrow> None
                        | Some c \<Rightarrow> Some (\<not> renderSideBySide c))
      in \<lparr> toggle_id = ''toggle.diff.editorMode'',
           toggle_label = (if active inlineMode then sideBySideLabel h else inlineLabel h),
           toggle_enabled = True,
           order = 50,
           inlineModeActive = inlineMode \<rparr>)"

text \<open>What one run of the callback writes: the variable and the label.\<close>

definition toggle_written :: "host \<Rightarrow> toggle_action \<Rightarrow> toggle_action" where
  "toggle_written h a =
     (let inlineMode = \<not> active (inlineModeActive a)
      in a\<lparr>inlineModeActive := Some inlineMode,
           toggle_label := (if inlineMode then sideBySideLabel h else inlineLabel h)\<rparr>)"

text \<open>
  One run of the callback, with the control that \<^verbatim>\<open>this.getControl()\<close> returns at
  that time: the call made on the control and the action afterwards.
\<close>

definition toggle_run ::
  "host \<Rightarrow> diff_editor option \<Rightarrow> toggle_action \<Rightarrow> exn + (toggle_action \<times> call list)" where
  "toggle_run h control a =
     (case control of
        None \<Rightarrow> Inl TypeError
      | Some c \<Rightarrow>
          Inr (toggle_written h a, [UpdateRenderSideBySide (inlineModeActive a)]))"

subsection \<open>A host for concrete runs\<close>

text \<open>
  Modelled from the spec: \<^verbatim>\<open>nls.localize\<close> is not in the sources. For the concrete
  runs it is taken without a language pack: the result is the default message given in
  the call, with \<^verbatim>\<open>{0}\<close> replaced by the first argument.
\<close>

fun format0 :: "string \<Rightarrow> string list \<Rightarrow> string" where
  "format0 [] args = []"
| "format0 (c # cs) args =
     (if take 3 (c # cs) = ''{0}'' \<and> args \<noteq> []
      then hd args @ format0 (drop 2 cs) args
      else c # format0 cs args)"

text \<open>
  Modelled from the spec: \<^verbatim>\<open>EditorInput.matches\<close> and the editor options of the base
  class are not in the sources. For the concrete runs an input matches the very same
  object only, and the base options are writable with an empty label.
\<close>

definition default_host :: host where
  "default_host =
     \<lparr> matches = (\<lambda>a b. case b of None \<Rightarrow> False | Some c \<Rightarrow> fst a = fst c),
       localize = (\<lambda>key message args. format0 message args),
       baseCodeEditorOptions = \<lparr>readOnly = False, ariaLabel = []\<rparr> \<rparr>"

subsection \<open>Concrete inputs and runs\<close>

definition input_A :: input_ref where
  "input_A =
     (1, DiffEditorInput (Some ''a.txt'') (Some ''left - right'')
           (10, OtherEditorInput (Some ''a.txt'') None)
           (11, OtherEditorInput (Some ''a.txt'') None) False)"

definition input_B :: input_ref where
  "input_B =
     (2, DiffEditorInput (Some ''b.txt'') None
           (20, OtherEditorInput (Some ''b.txt'') None)
           (21, StringEditorInput (Some ''b.txt'') None) False)"

definition fresh_pane :: pane where
  "fresh_pane = createEditorControl default_host 0"

text \<open>The pane once the load of \<open>input_A\<close> has completed with a text diff model.\<close>

definition pane_showing_A :: pane where
  "pane_showing_A =
     exec default_host fresh_pane
       [SetInput input_A None, Settle 0 (Resolved (TextDiffEditorModel 100))]"

text \<open>The pane while the load of \<open>input_A\<close> is in flight.\<close>

definition pane_loading_A :: pane where
  "pane_loading_A = exec default_host fresh_pane [SetInput input_A None]"

text \<open>
  The load of \<open>input_A\<close> is still in flight when \<open>input_B\<close> is set: the first pending
  load is the one of \<open>input_A\<close>, the current input is \<open>input_B\<close>.
\<close>

definition pane_A_then_B :: pane where
  "pane_A_then_B =
     exec default_host fresh_pane [SetInput input_A None, SetInput input_B None]"

text \<open>
  \<open>input_A\<close>, then \<open>input_B\<close>, then \<open>input_A\<close> again are set before any load completes;
  then the three loads complete in the order they were started.
\<close>

definition overlapping_loads :: "event list" where
  "overlapping_loads =
     [SetInput input_A None, SetInput input_B None, SetInput input_A None,
      Settle 0 (Resolved (TextDiffEditorModel 100)),
      Settle 0 (Resolved (TextDiffEditorModel 200)),
      Settle 0 (Resolved (TextDiffEditorModel 100))]"

section \<open>Properties\<close>

subsection \<open>Evaluating the concrete runs\<close>

lemmas pane_defs =
  createEditorControl_def NavigateAction_def setInput_def super_setInput_def
  detect_forceOpen_def disposeNavigator_def settle_def without_def onResolved_def
  onRejected_def openAsBinary_def stale_def getCodeEditorOptions_def clearInput_def
  super_clearInput_def dispose_def super_dispose_def

lemmas example_defs =
  fresh_pane_def default_host_def input_A_def input_B_def

lemma pending_loading_A: "pending pane_loading_A = [(input_A, None)]"
  by (simp add: pane_loading_A_def pane_defs example_defs Let_def)

lemma input_showing_A: "input pane_showing_A = Some input_A"
  by (simp add: pane_showing_A_def pane_defs example_defs Let_def)

lemma diffNavigator_showing_A: "diffNavigator pane_showing_A = Some 0"
  by (simp add: pane_showing_A_def pane_defs example_defs Let_def)

lemma navigators_showing_A:
  "navigators pane_showing_A =
     [\<lparr>alwaysRevealFirst = True, disposed = False, created_for = 1\<rparr>]"
  by (simp add: pane_showing_A_def pane_defs example_defs Let_def)

lemma pending_A_then_B: "pending pane_A_then_B = [(input_A, None), (input_B, None)]"
  by (simp add: pane_A_then_B_def pane_defs example_defs Let_def)

lemma input_A_then_B: "input pane_A_then_B = Some input_B"
  by (simp add: pane_A_then_B_def pane_defs example_defs Let_def)

subsection \<open>The binary error test\<close>

lemma isFileBinaryError_object:
  "isFileBinaryError (ErrorObject msg r) \<longleftrightarrow> r = Some FILE_IS_BINARY"
  by simp

lemma isFileBinaryError_array:
  "isFileBinaryError (ErrorArray es) \<longleftrightarrow> (\<exists>e \<in> set es. isFileBinaryError e)"
  by (simp add: list_ex_iff)

subsection \<open>Setting the same input again\<close>

text \<open>
  C2. When \<^verbatim>\<open>setInput\<close> is called with an input that matches the current input and
  the forceOpen option is not set, it returns early with a fulfilled promise: the
  navigator field and every navigator object stay as they were (nothing is disposed,
  nothing is created), no load is started, and the only call made is
  \<^verbatim>\<open>options.apply(control)\<close> when the options carry an apply method.
\<close>

theorem setInput_same_input_keeps_navigator:
  assumes same: "matches h inp (input s)"
    and noforce: "\<not> detect_forceOpen opts"
  shows "setInput h s inp opts =
           (s\<lparr>input := Some inp, options := opts,
               calls := calls s @
                 (case opts of
                    None \<Rightarrow> []
                  | Some textOptions \<Rightarrow>
                      if has_apply textOptions then [ApplyOptions textOptions] else [])\<rparr>,
            Some Fulfilled)
         \<and> navigators (fst (setInput h s inp opts)) = navigators s
         \<and> diffNavigator (fst (setInput h s inp opts)) = diffNavigator s
         \<and> pending (fst (setInput h s inp opts)) = pending s"
  using same noforce
  by (cases opts) (simp_all add: setInput_def super_setInput_def Let_def)

theorem setInput_same_input_keeps_navigator_witness:
  "matches default_host input_A (input pane_showing_A)
   \<and> \<not> detect_forceOpen (Some (TextEditorOptions False))
   \<and> navigators (fst (setInput default_host pane_showing_A input_A
                        (Some (TextEditorOptions False)))) =
       [\<lparr>alwaysRevealFirst = True, disposed = False, created_for = 1\<rparr>]
   \<and> diffNavigator (fst (setInput default_host pane_showing_A input_A
                           (Some (TextEditorOptions False)))) = Some 0
   \<and> calls (fst (setInput default_host pane_showing_A input_A
                    (Some (TextEditorOptions False)))) =
       calls pane_showing_A @ [ApplyOptions (TextEditorOptions False)]
   \<and> snd (setInput default_host pane_showing_A input_A
             (Some (TextEditorOptions False))) = Some Fulfilled"
proof -
  have same: "matches default_host input_A (input pane_showing_A)"
    by (simp add: input_showing_A default_host_def)
  have noforce: "\<not> detect_forceOpen (Some (TextEditorOptions False))"
    by (simp add: detect_forceOpen_def)
  from setInput_same_input_keeps_navigator [OF same noforce] same noforce
  show ?thesis
    by (simp add: navigators_showing_A diffNavigator_showing_A)
qed

subsection \<open>Failed loads\<close>

text \<open>
  C3. When the load of a diff editor input fails with a binary-file error (an error
  object whose \<^verbatim>\<open>fileOperationResult\<close> is \<^verbatim>\<open>FILE_IS_BINARY\<close>, or an array holding
  one), the callback makes exactly one call, \<^verbatim>\<open>openEditor\<close> with a new diff editor
  input of the same name, description, original and modified input and the binary flag
  set, with the options and the position of the pane; the promise that \<^verbatim>\<open>setInput\<close>
  returned is fulfilled, not rejected.
\<close>

theorem binary_error_reopens_as_binary:
  assumes load: "k < length (pending s)" "pending s ! k = (inp, opts)"
    and bin: "isFileBinaryError err"
    and diff: "snd inp = DiffEditorInput nm ds originalInput modifiedInput b"
  shows "settle h s k (Failed err) =
           (s\<lparr>pending := without k (pending s),
               calls := calls s @
                 [OpenEditor (DiffEditorInput nm ds originalInput modifiedInput True)
                    opts (position s)]\<rparr>,
            Some Fulfilled)"
  using load bin diff by (simp add: settle_def onRejected_def openAsBinary_def Let_def)

theorem binary_error_reopens_as_binary_witness:
  "0 < length (pending pane_loading_A)
   \<and> pending pane_loading_A ! 0 = (input_A, None)
   \<and> isFileBinaryError
       (ErrorArray [ErrorObject ''gone'' (Some FILE_NOT_FOUND),
                    ErrorObject ''binary'' (Some FILE_IS_BINARY)])
   \<and> settle default_host pane_loading_A 0
       (Failed (ErrorArray [ErrorObject ''gone'' (Some FILE_NOT_FOUND),
                            ErrorObject ''binary'' (Some FILE_IS_BINARY)])) =
       (pane_loading_A\<lparr>pending := [],
          calls := calls pane_loading_A @
            [OpenEditor
               (DiffEditorInput (Some ''a.txt'') (Some ''left - right'')
                  (10, OtherEditorInput (Some ''a.txt'') None)
                  (11, OtherEditorInput (Some ''a.txt'') None) True)
               None 0]\<rparr>,
        Some Fulfilled)"
proof -
  have load: "0 < length (pending pane_loading_A)"
    "pending pane_loading_A ! 0 = (input_A, None)"
    by (simp_all add: pending_loading_A)
  have bin: "isFileBinaryError
       (ErrorArray [ErrorObject ''gone'' (Some FILE_NOT_FOUND),
                    ErrorObject ''binary'' (Some FILE_IS_BINARY)])"
    by simp
  have diff: "snd input_A =
      DiffEditorInput (Some ''a.txt'') (Some ''left - right'')
        (10, OtherEditorInput (Some ''a.txt'') None)
        (11, OtherEditorInput (Some ''a.txt'') None) False"
    by (simp add: input_A_def)
  have pos: "position pane_loading_A = 0"
    by (simp add: pane_loading_A_def pane_defs example_defs Let_def)
  from binary_error_reopens_as_binary [OF load bin diff, of default_host] load bin
  show ?thesis
    by (simp add: pending_loading_A without_def pos)
qed

text \<open>
  C4. When a load fails with an error that is not a binary-file error, or the input is
  not a diff editor input (so that the binary fallback does not apply), the callback
  makes no call and the promise that \<^verbatim>\<open>setInput\<close> returned is rejected with the very
  error the load failed with.
\<close>

theorem other_error_is_passed_on:
  assumes load: "k < length (pending s)" "pending s ! k = (inp, opts)"
    and other: "\<not> (isFileBinaryError err \<and> is_DiffEditorInput (snd inp))"
  shows "settle h s k (Failed err) =
           (s\<lparr>pending := without k (pending s)\<rparr>, Some (Rejected err))"
  using load other
  by (cases "snd inp") (auto simp add: settle_def onRejected_def openAsBinary_def Let_def)

theorem other_error_is_passed_on_witness:
  "0 < length (pending pane_loading_A)
   \<and> pending pane_loading_A ! 0 = (input_A, None)
   \<and> settle default_host pane_loading_A 0
       (Failed (ErrorObject ''gone'' (Some FILE_NOT_FOUND))) =
       (pane_loading_A\<lparr>pending := []\<rparr>,
        Some (Rejected (ErrorObject ''gone'' (Some FILE_NOT_FOUND))))"
proof -
  have load: "0 < length (pending pane_loading_A)"
    "pending pane_loading_A ! 0 = (input_A, None)"
    by (simp_all add: pending_loading_A)
  have other: "\<not> (isFileBinaryError (ErrorObject ''gone'' (Some FILE_NOT_FOUND))
                  \<and> is_DiffEditorInput (snd input_A))"
    by simp
  from other_error_is_passed_on [OF load other, of default_host] load
  show ?thesis
    by (simp add: pending_loading_A without_def)
qed

subsection \<open>Title and editor options\<close>

text \<open>
  C8. \<^verbatim>\<open>getTitle\<close> returns the name of the current input whenever an input is set,
  and the localized message with the default text "Text Diff Editor" whenever no
  input is set. So the title is the name of the input right after \<^verbatim>\<open>setInput\<close> and
  the default title right after \<^verbatim>\<open>clearInput\<close>.
\<close>

theorem getTitle_name_or_default:
  "(input s = Some i \<longrightarrow> getTitle h s = getName (snd i))
   \<and> (input s = None \<longrightarrow>
        getTitle h s = Some (localize h ''textDiffEditor'' ''Text Diff Editor'' []))
   \<and> getTitle h (fst (setInput h s i opts)) = getName (snd i)
   \<and> getTitle h (clearInput s) =
        Some (localize h ''textDiffEditor'' ''Text Diff Editor'' [])"
  by (simp add: getTitle_def setInput_def super_setInput_def disposeNavigator_def
      clearInput_def super_clearInput_def Let_def split: option.splits)

theorem getTitle_name_or_default_witness:
  "input pane_showing_A = Some input_A
   \<and> getTitle default_host pane_showing_A = Some ''a.txt''
   \<and> input fresh_pane = None
   \<and> getTitle default_host fresh_pane = Some ''Text Diff Editor''
   \<and> getTitle default_host (clearInput pane_showing_A) = Some ''Text Diff Editor''"
proof -
  have a: "input pane_showing_A = Some input_A"
    by (rule input_showing_A)
  have b: "input fresh_pane = None"
    by (simp add: fresh_pane_def createEditorControl_def)
  have name: "getName (snd input_A) = Some ''a.txt''"
    by (simp add: input_A_def)
  have msg: "localize default_host ''textDiffEditor'' ''Text Diff Editor'' [] =
      ''Text Diff Editor''"
    by (simp add: default_host_def)
  from getTitle_name_or_default [of pane_showing_A input_A default_host]
    getTitle_name_or_default [of fresh_pane input_A default_host] a b
  show ?thesis
    by (simp add: name msg)
qed

text \<open>
  C9. When the current input is a diff editor input, \<^verbatim>\<open>getCodeEditorOptions\<close> sets
  readOnly to true exactly when the modified input is a string editor input or a
  resource editor input. The ARIA label is the localized message "{0}. Readonly text
  compare editor." (readOnly) or "{0}. Text file compare editor." (otherwise) with the
  input name as argument when the name is neither null nor empty, and the message
  "Readonly text compare editor." or "Text file compare editor." without the name
  otherwise.
\<close>

theorem getCodeEditorOptions_of_diff_input:
  assumes "input s = Some (r, DiffEditorInput nm ds originalInput modifiedInput b)"
  shows "readOnly (getCodeEditorOptions h s) =
           (is_StringEditorInput (snd modifiedInput)
            \<or> is_ResourceEditorInput (snd modifiedInput))
         \<and> ariaLabel (getCodeEditorOptions h s) =
           (case nm of
              Some (c # cs) \<Rightarrow>
                if readOnly (getCodeEditorOptions h s)
                then localize h ''readonlyEditorWithInputAriaLabel''
                       ''{0}. Readonly text compare editor.'' [c # cs]
                else localize h ''editableEditorWithInputAriaLabel''
                       ''{0}. Text file compare editor.'' [c # cs]
            | _ \<Rightarrow>
                if readOnly (getCodeEditorOptions h s)
                then localize h ''readonlyEditorAriaLabel''
                       ''Readonly text compare editor.'' []
                else localize h ''editableEditorAriaLabel''
                       ''Text file compare editor.'' [])"
  using assms
  by (simp add: getCodeEditorOptions_def Let_def split: option.splits list.splits)

theorem getCodeEditorOptions_of_diff_input_witness:
  "input pane_A_then_B =
     Some (2, DiffEditorInput (Some ''b.txt'') None
                (20, OtherEditorInput (Some ''b.txt'') None)
                (21, StringEditorInput (Some ''b.txt'') None) False)
   \<and> readOnly (getCodeEditorOptions default_host pane_A_then_B)
   \<and> ariaLabel (getCodeEditorOptions default_host pane_A_then_B) =
       ''b.txt. Readonly text compare editor.''"
proof -
  have inp: "input pane_A_then_B =
     Some (2, DiffEditorInput (Some ''b.txt'') None
                (20, OtherEditorInput (Some ''b.txt'') None)
                (21, StringEditorInput (Some ''b.txt'') None) False)"
    by (simp add: input_A_then_B input_B_def)
  have msg: "localize default_host ''readonlyEditorWithInputAriaLabel''
       ''{0}. Readonly text compare editor.'' [''b.txt''] =
     ''b.txt. Readonly text compare editor.''"
    by (simp add: default_host_def)
  from getCodeEditorOptions_of_diff_input [OF inp, of default_host] inp
  show ?thesis
    by (simp add: msg)
qed

subsection \<open>The navigate actions\<close>

text \<open>
  C7, as stated, fails: \<^verbatim>\<open>run\<close> has no guard and does not read the enabled flag, so
  on a pane that holds no navigator yet (the pane right after its creation, or while
  its first load is in flight) the member access on \<^verbatim>\<open>getDiffNavigator()\<close> throws
  and no call is forwarded.
\<close>

theorem run_without_navigator_throws:
  "diffNavigator fresh_pane = None
   \<and> nextDiffAction fresh_pane = NavigateAction default_host True
   \<and> previousDiffAction fresh_pane = NavigateAction default_host False
   \<and> run fresh_pane (NavigateAction default_host True) = Inl TypeError
   \<and> run fresh_pane (NavigateAction default_host False) = Inl TypeError
   \<and> diffNavigator pane_loading_A = None
   \<and> run pane_loading_A (NavigateAction default_host True) = Inl TypeError
   \<and> run pane_loading_A (NavigateAction default_host False) = Inl TypeError"
  by (simp add: run_def pane_loading_A_def pane_defs example_defs Let_def)

text \<open>
  C7, amended. Running a navigate action on a pane that holds a navigator makes exactly
  one call, on the navigator the pane holds: \<^verbatim>\<open>next()\<close> for the action constructed
  with \<open>next = true\<close>, \<^verbatim>\<open>previous()\<close> for the action constructed with
  \<open>next = false\<close>, whatever the enabled flag of the action is by then. Nothing else of
  the pane changes.
\<close>

theorem run_forwards_to_navigator:
  assumes "diffNavigator s = Some n"
  shows "run s ((NavigateAction h True)\<lparr>enabled := e\<rparr>) =
           Inr (s\<lparr>calls := calls s @ [NavigatorNext n]\<rparr>)
         \<and> run s ((NavigateAction h False)\<lparr>enabled := e\<rparr>) =
             Inr (s\<lparr>calls := calls s @ [NavigatorPrevious n]\<rparr>)"
  using assms by (simp add: run_def NavigateAction_def)

theorem run_forwards_to_navigator_witness:
  "diffNavigator pane_showing_A = Some 0
   \<and> run pane_showing_A ((NavigateAction default_host True)\<lparr>enabled := True\<rparr>) =
       Inr (pane_showing_A\<lparr>calls := calls pane_showing_A @ [NavigatorNext 0]\<rparr>)
   \<and> run pane_showing_A ((NavigateAction default_host False)\<lparr>enabled := True\<rparr>) =
       Inr (pane_showing_A\<lparr>calls := calls pane_showing_A @ [NavigatorPrevious 0]\<rparr>)"
  using run_forwards_to_navigator [OF diffNavigator_showing_A, where h = default_host and e = True]
  by (simp add: diffNavigator_showing_A)

subsection \<open>The toggle action\<close>

lemma toggle_written_record:
  "toggle_written h
     \<lparr> toggle_id = i, toggle_label = l, toggle_enabled = e, order = n,
       inlineModeActive = Some v \<rparr> =
     \<lparr> toggle_id = i,
       toggle_label = (if v then inlineLabel h else sideBySideLabel h),
       toggle_enabled = e, order = n, inlineModeActive = Some (\<not> v) \<rparr>"
  by (simp add: toggle_written_def)

lemma toggle_written_created:
  "\<exists>v. (toggle_written h ^^ k) (toggleEditorModeAction h (Some c)) =
         \<lparr> toggle_id = ''toggle.diff.editorMode'',
           toggle_label = (if v then sideBySideLabel h else inlineLabel h),
           toggle_enabled = True, order = 50, inlineModeActive = Some v \<rparr>"
proof (induction k)
  case 0
  show ?case by (simp add: toggleEditorModeAction_def)
next
  case (Suc k)
  then obtain v where
    "(toggle_written h ^^ k) (toggleEditorModeAction h (Some c)) =
       \<lparr> toggle_id = ''toggle.diff.editorMode'',
         toggle_label = (if v then sideBySideLabel h else inlineLabel h),
         toggle_enabled = True, order = 50, inlineModeActive = Some v \<rparr>"
    by blast
  then have "(toggle_written h ^^ Suc k) (toggleEditorModeAction h (Some c)) =
       \<lparr> toggle_id = ''toggle.diff.editorMode'',
         toggle_label = (if \<not> v then sideBySideLabel h else inlineLabel h),
         toggle_enabled = True, order = 50, inlineModeActive = Some (\<not> v) \<rparr>"
    by (simp only: funpow.simps o_apply toggle_written_record) simp
  then show ?case by blast
qed

text \<open>
  C10. Take the toggle action as \<^verbatim>\<open>getSecondaryActions\<close> creates it on a pane whose
  control exists, after any number \<open>k\<close> of runs. Its variable holds a boolean \<open>v\<close> and
  its label is "Switch to Side by Side View" when \<open>v\<close> holds and "Switch to Inline
  View" otherwise. The next run sends \<open>renderSideBySide = v\<close> to the control and swaps
  the label; the run after that sends \<open>renderSideBySide = \<not> v\<close> and leaves the action
  exactly as it was before the two runs.
\<close>

theorem toggle_twice_restores:
  assumes "a = (toggle_written h ^^ k) (toggleEditorModeAction h (Some c))"
  shows "\<exists>v a1.
           inlineModeActive a = Some v
           \<and> toggle_label a = (if v then sideBySideLabel h else inlineLabel h)
           \<and> toggle_run h (Some c1) a = Inr (a1, [UpdateRenderSideBySide (Some v)])
           \<and> toggle_label a1 = (if v then inlineLabel h else sideBySideLabel h)
           \<and> toggle_run h (Some c2) a1 = Inr (a, [UpdateRenderSideBySide (Some (\<not> v))])"
proof -
  from toggle_written_created [where h = h and k = k and c = c] assms obtain v where
    v: "a = \<lparr> toggle_id = ''toggle.diff.editorMode'',
              toggle_label = (if v then sideBySideLabel h else inlineLabel h),
              toggle_enabled = True, order = 50, inlineModeActive = Some v \<rparr>"
    by auto
  have "toggle_run h (Some c1) a =
      Inr (toggle_written h a, [UpdateRenderSideBySide (Some v)])"
    by (simp add: toggle_run_def v)
  moreover have "toggle_label (toggle_written h a) =
      (if v then inlineLabel h else sideBySideLabel h)"
    by (simp add: toggle_written_def v)
  moreover have "toggle_run h (Some c2) (toggle_written h a) =
      Inr (a, [UpdateRenderSideBySide (Some (\<not> v))])"
    by (simp add: toggle_run_def toggle_written_def v)
  ultimately show ?thesis
    using v by auto
qed

theorem toggle_twice_restores_witness:
  "toggle_label (toggleEditorModeAction default_host (Some \<lparr>renderSideBySide = True\<rparr>)) =
     ''Switch to Inline View''
   \<and> toggle_run default_host (Some \<lparr>renderSideBySide = True\<rparr>)
       (toggleEditorModeAction default_host (Some \<lparr>renderSideBySide = True\<rparr>)) =
       Inr (toggle_written default_host
              (toggleEditorModeAction default_host (Some \<lparr>renderSideBySide = True\<rparr>)),
            [UpdateRenderSideBySide (Some False)])
   \<and> toggle_label
       (toggle_written default_host
          (toggleEditorModeAction default_host (Some \<lparr>renderSideBySide = True\<rparr>))) =
       ''Switch to Side by Side View''
   \<and> toggle_run default_host (Some \<lparr>renderSideBySide = False\<rparr>)
       (toggle_written default_host
          (toggleEditorModeAction default_host (Some \<lparr>renderSideBySide = True\<rparr>))) =
       Inr (toggleEditorModeAction default_host (Some \<lparr>renderSideBySide = True\<rparr>),
            [UpdateRenderSideBySide (Some True)])"
proof -
  define a where "a = toggleEditorModeAction default_host (Some \<lparr>renderSideBySide = True\<rparr>)"
  have start: "a = (toggle_written default_host ^^ 0)
      (toggleEditorModeAction default_host (Some \<lparr>renderSideBySide = True\<rparr>))"
    by (simp add: a_def)
  have v: "inlineModeActive a = Some False"
    by (simp add: a_def toggleEditorModeAction_def)
  have labels: "inlineLabel default_host = ''Switch to Inline View''"
    "sideBySideLabel default_host = ''Switch to Side by Side View''"
    by (simp_all add: inlineLabel_def sideBySideLabel_def default_host_def)
  from toggle_twice_restores [OF start, where ?c1.0 = "\<lparr>renderSideBySide = True\<rparr>"
      and ?c2.0 = "\<lparr>renderSideBySide = False\<rparr>"]
  obtain w a1 where
    w: "inlineModeActive a = Some w"
      "toggle_label a = (if w then sideBySideLabel default_host else inlineLabel default_host)"
      "toggle_run default_host (Some \<lparr>renderSideBySide = True\<rparr>) a =
         Inr (a1, [UpdateRenderSideBySide (Some w)])"
      "toggle_label a1 = (if w then inlineLabel default_host else sideBySideLabel default_host)"
      "toggle_run default_host (Some \<lparr>renderSideBySide = False\<rparr>) a1 =
         Inr (a, [UpdateRenderSideBySide (Some (\<not> w))])"
    by blast
  from w(1) v have "w = False" by simp
  moreover from w(3) have "a1 = toggle_written default_host a"
    by (simp add: toggle_run_def)
  ultimately show ?thesis
    using w by (simp add: labels a_def [symmetric])
qed

subsection \<open>What the lifecycle methods leave alone\<close>

lemma disposeNavigator_fields [simp]:
  "input (disposeNavigator s) = input s"
  "options (disposeNavigator s) = options s"
  "position (disposeNavigator s) = position s"
  "diffNavigator (disposeNavigator s) = diffNavigator s"
  "length (navigators (disposeNavigator s)) = length (navigators s)"
  "nextDiffAction (disposeNavigator s) = nextDiffAction s"
  "previousDiffAction (disposeNavigator s) = previousDiffAction s"
  "pending (disposeNavigator s) = pending s"
  "calls (disposeNavigator s) = calls s"
  by (simp_all add: disposeNavigator_def split: option.splits)

lemma openAsBinary_fields [simp]:
  "input (fst (openAsBinary s inp opts)) = input s"
  "diffNavigator (fst (openAsBinary s inp opts)) = diffNavigator s"
  "navigators (fst (openAsBinary s inp opts)) = navigators s"
  "nextDiffAction (fst (openAsBinary s inp opts)) = nextDiffAction s"
  "previousDiffAction (fst (openAsBinary s inp opts)) = previousDiffAction s"
  "pending (fst (openAsBinary s inp opts)) = pending s"
  by (simp_all add: openAsBinary_def split: editor_input.splits)

lemma setInput_actions:
  "nextDiffAction (fst (setInput h s inp opts)) = nextDiffAction s"
  "previousDiffAction (fst (setInput h s inp opts)) = previousDiffAction s"
  by (simp_all add: setInput_def super_setInput_def Let_def split: option.splits)

lemma onResolved_actions:
  "nextDiffAction (fst (onResolved h s inp opts m)) = nextDiffAction s"
  "previousDiffAction (fst (onResolved h s inp opts m)) = previousDiffAction s"
  by (simp_all add: onResolved_def Let_def split_beta split: option.splits)

lemma onRejected_actions:
  "nextDiffAction (fst (onRejected s inp opts err)) = nextDiffAction s"
  "previousDiffAction (fst (onRejected s inp opts err)) = previousDiffAction s"
  by (simp_all add: onRejected_def Let_def split_beta)

lemma settle_actions:
  "nextDiffAction (fst (settle h s k out)) = nextDiffAction s"
  "previousDiffAction (fst (settle h s k out)) = previousDiffAction s"
  by (simp_all add: settle_def Let_def split_beta onResolved_actions onRejected_actions
      split: outcome.splits)

lemma clearInput_actions:
  "nextDiffAction (clearInput s) = nextDiffAction s"
  "previousDiffAction (clearInput s) = previousDiffAction s"
  by (simp_all add: clearInput_def super_clearInput_def Let_def)

lemma dispose_actions:
  "nextDiffAction (dispose s) = nextDiffAction s"
  "previousDiffAction (dispose s) = previousDiffAction s"
  by (simp_all add: dispose_def super_dispose_def)

lemma run_actions:
  "run s a = Inr s' \<Longrightarrow>
   nextDiffAction s' = nextDiffAction s \<and> previousDiffAction s' = previousDiffAction s"
  by (auto simp add: run_def split: if_splits option.splits)

lemma step_actions:
  assumes "\<not> is_Updated e"
  shows "nextDiffAction (step h s e) = nextDiffAction s
         \<and> previousDiffAction (step h s e) = previousDiffAction s"
proof (cases e)
  case (RunAction nxt)
  then show ?thesis
    by (auto split: sum.splits dest: run_actions)
next
  case (Updated k c)
  with assms show ?thesis by simp
qed (simp_all add: setInput_actions settle_actions clearInput_actions dispose_actions)

lemma exec_actions:
  "\<forall>e \<in> set es. \<not> is_Updated e \<Longrightarrow>
   nextDiffAction (exec h s es) = nextDiffAction s
   \<and> previousDiffAction (exec h s es) = previousDiffAction s"
  by (induction es arbitrary: s) (simp_all add: step_actions)

subsection \<open>The navigator field names a navigator\<close>

lemma navigator_known_setInput:
  "navigator_known s \<Longrightarrow> navigator_known (fst (setInput h s inp opts))"
  by (auto simp add: navigator_known_def setInput_def super_setInput_def Let_def
      disposeNavigator_def split: option.splits)

lemma navigator_known_onResolved:
  "navigator_known s \<Longrightarrow> navigator_known (fst (onResolved h s inp opts m))"
  by (auto simp add: navigator_known_def onResolved_def Let_def split_beta
      split: option.splits)

lemma navigator_known_onRejected:
  "navigator_known s \<Longrightarrow> navigator_known (fst (onRejected s inp opts err))"
  by (auto simp add: navigator_known_def onRejected_def Let_def split_beta
      split: option.splits)

lemma navigator_known_settle:
  "navigator_known s \<Longrightarrow> navigator_known (fst (settle h s k out))"
proof -
  assume a: "navigator_known s"
  have b: "navigator_known (s\<lparr>pending := without k (pending s)\<rparr>)"
    using a by (simp add: navigator_known_def split: option.splits)
  show ?thesis
    using a navigator_known_onResolved [OF b] navigator_known_onRejected [OF b]
    by (simp add: settle_def Let_def split_beta split: outcome.splits)
qed

lemma navigator_known_clearInput:
  "navigator_known s \<Longrightarrow> navigator_known (clearInput s)"
  by (auto simp add: navigator_known_def clearInput_def super_clearInput_def Let_def
      disposeNavigator_def split: option.splits)

lemma navigator_known_dispose:
  "navigator_known s \<Longrightarrow> navigator_known (dispose s)"
  by (auto simp add: navigator_known_def dispose_def super_dispose_def
      disposeNavigator_def split: option.splits)

lemma navigator_known_onUpdated:
  "navigator_known s \<Longrightarrow> onUpdated c s = Inr s' \<Longrightarrow> navigator_known s'"
  by (auto simp add: navigator_known_def onUpdated_def updateEnablement_def Let_def
      split: option.splits)

lemma navigator_known_run:
  "navigator_known s \<Longrightarrow> run s a = Inr s' \<Longrightarrow> navigator_known s'"
  by (auto simp add: navigator_known_def run_def split: option.splits if_splits)

lemma navigator_known_step:
  "navigator_known s \<Longrightarrow> navigator_known (step h s e)"
  by (cases e)
    (auto simp add: navigator_known_setInput navigator_known_settle
      navigator_known_clearInput navigator_known_dispose
      split: sum.splits dest: navigator_known_onUpdated navigator_known_run)

lemma navigator_known_exec:
  "navigator_known s \<Longrightarrow> navigator_known (exec h s es)"
  by (induction es arbitrary: s) (simp_all add: navigator_known_step)

lemma navigator_known_created: "navigator_known (createEditorControl h p)"
  by (simp add: navigator_known_def createEditorControl_def)

subsection \<open>Enablement of the navigate actions\<close>

lemma onUpdated_sets_enablement:
  "diffNavigator s = Some n \<Longrightarrow>
   onUpdated canNavigate s =
     Inr (s\<lparr>nextDiffAction := (nextDiffAction s)\<lparr>enabled := canNavigate n\<rparr>,
            previousDiffAction := (previousDiffAction s)\<lparr>enabled := canNavigate n\<rparr>\<rparr>)"
  by (simp add: onUpdated_def updateEnablement_def)

text \<open>
  C6. Take the pane after any run \<open>es\<close> of events from its creation. When one of its
  navigators (navigator \<open>k\<close>) emits UPDATED, the pane holds a navigator \<open>n\<close> and the
  listener sets the enabled flag of the next action and of the previous action to what
  \<^verbatim>\<open>canNavigate()\<close> of that navigator returns, leaving everything else as it was. As
  long as no UPDATED event has occurred in the run, both actions are disabled.
\<close>

theorem enablement_mirrors_navigator:
  assumes "s = exec h (createEditorControl h p) es"
  shows "(k < length (navigators s) \<longrightarrow>
            (\<exists>n. diffNavigator s = Some n
               \<and> step h s (Updated k canNavigate) =
                   s\<lparr>nextDiffAction := (nextDiffAction s)\<lparr>enabled := canNavigate n\<rparr>,
                     previousDiffAction :=
                       (previousDiffAction s)\<lparr>enabled := canNavigate n\<rparr>\<rparr>))
         \<and> ((\<forall>e \<in> set es. \<not> is_Updated e) \<longrightarrow>
              \<not> enabled (nextDiffAction s) \<and> \<not> enabled (previousDiffAction s))"
proof (intro conjI impI)
  assume k: "k < length (navigators s)"
  have "navigator_known s"
    unfolding assms by (rule navigator_known_exec [OF navigator_known_created])
  with k obtain n where n: "diffNavigator s = Some n"
    by (cases "diffNavigator s") (auto simp add: navigator_known_def)
  with k show "\<exists>n. diffNavigator s = Some n
      \<and> step h s (Updated k canNavigate) =
          s\<lparr>nextDiffAction := (nextDiffAction s)\<lparr>enabled := canNavigate n\<rparr>,
            previousDiffAction := (previousDiffAction s)\<lparr>enabled := canNavigate n\<rparr>\<rparr>"
    by (simp add: onUpdated_sets_enablement)
next
  assume "\<forall>e \<in> set es. \<not> is_Updated e"
  from exec_actions [OF this, of h "createEditorControl h p"]
  show "\<not> enabled (nextDiffAction s)" "\<not> enabled (previousDiffAction s)"
    by (simp_all add: assms createEditorControl_def NavigateAction_def)
qed

theorem enablement_mirrors_navigator_witness:
  "pane_showing_A =
     exec default_host (createEditorControl default_host 0)
       [SetInput input_A None, Settle 0 (Resolved (TextDiffEditorModel 100))]
   \<and> 0 < length (navigators pane_showing_A)
   \<and> diffNavigator pane_showing_A = Some 0
   \<and> enabled (nextDiffAction (step default_host pane_showing_A (Updated 0 (\<lambda>n. n = 0))))
   \<and> enabled (previousDiffAction (step default_host pane_showing_A (Updated 0 (\<lambda>n. n = 0))))
   \<and> \<not> enabled (nextDiffAction (step default_host pane_showing_A (Updated 0 (\<lambda>n. n \<noteq> 0))))
   \<and> \<not> enabled (nextDiffAction pane_showing_A)
   \<and> \<not> enabled (previousDiffAction pane_showing_A)"
proof -
  have run: "pane_showing_A =
     exec default_host (createEditorControl default_host 0)
       [SetInput input_A None, Settle 0 (Resolved (TextDiffEditorModel 100))]"
    by (simp only: pane_showing_A_def fresh_pane_def)
  have k: "0 < length (navigators pane_showing_A)"
    by (simp add: navigators_showing_A)
  have quiet: "\<forall>e \<in> set [SetInput input_A None, Settle 0 (Resolved (TextDiffEditorModel 100))].
      \<not> is_Updated e"
    by simp
  from enablement_mirrors_navigator [OF run, of 0 "\<lambda>n. n = 0"]
    enablement_mirrors_navigator [OF run, of 0 "\<lambda>n. n \<noteq> 0"] k quiet run
  show ?thesis
    by (simp add: diffNavigator_showing_A del: step.simps exec.simps)
qed

subsection \<open>Late results\<close>

lemma late_onResolved:
  assumes "stale s inp"
  shows "navigators (fst (onResolved h s inp opts m)) = navigators s
         \<and> diffNavigator (fst (onResolved h s inp opts m)) = diffNavigator s
         \<and> input (fst (onResolved h s inp opts m)) = input s
         \<and> pending (fst (onResolved h s inp opts m)) = pending s
         \<and> (\<exists>cs. calls (fst (onResolved h s inp opts m)) = calls s @ cs
                \<and> list_all is_OpenEditor cs)"
  using assms
  by (cases "snd inp")
    (simp_all add: onResolved_def openAsBinary_def stale_def Let_def)

lemma late_onRejected:
  "navigators (fst (onRejected s inp opts err)) = navigators s
   \<and> diffNavigator (fst (onRejected s inp opts err)) = diffNavigator s
   \<and> input (fst (onRejected s inp opts err)) = input s
   \<and> pending (fst (onRejected s inp opts err)) = pending s
   \<and> (\<exists>cs. calls (fst (onRejected s inp opts err)) = calls s @ cs
          \<and> list_all is_OpenEditor cs)"
  by (cases "snd inp") (simp_all add: onRejected_def openAsBinary_def Let_def)

lemma late_text_model:
  assumes "stale s inp"
    and "is_TextDiffEditorModel m \<or> \<not> is_DiffEditorInput (snd inp)"
  shows "onResolved h s inp opts m = (s, Fulfilled)"
  using assms
  by (cases "snd inp")
    (auto simp add: onResolved_def openAsBinary_def stale_def Let_def)

text \<open>
  C5 says that a load completing after the pane's input has been changed produces no
  visible update: no model set, no navigator created, no re-open call. The pane breaks
  this: the load of \<open>input_A\<close> completes after \<open>input_B\<close> has been set, with a model
  that is not a text diff model, and the pane calls \<^verbatim>\<open>openEditor\<close> with the binary
  copy of \<open>input_A\<close>. The test of the model's class comes before the check of the
  current input, which the path of a text diff model honours.
\<close>

theorem late_binary_result_reopens:
  "input pane_A_then_B = Some input_B
   \<and> stale pane_A_then_B input_A
   \<and> pending pane_A_then_B ! 0 = (input_A, None)
   \<and> calls (fst (settle default_host pane_A_then_B 0 (Resolved OtherEditorModel))) =
       calls pane_A_then_B @
         [OpenEditor
            (DiffEditorInput (Some ''a.txt'') (Some ''left - right'')
               (10, OtherEditorInput (Some ''a.txt'') None)
               (11, OtherEditorInput (Some ''a.txt'') None) True)
            None 0]"
proof -
  have pos: "position pane_A_then_B = 0"
    by (simp add: pane_A_then_B_def pane_defs example_defs Let_def)
  have late: "stale pane_A_then_B input_A"
    by (simp add: stale_def input_A_then_B input_A_def input_B_def)
  show ?thesis
    by (simp add: late input_A_then_B pending_A_then_B settle_def onResolved_def
        openAsBinary_def without_def Let_def pos)
      (simp add: input_A_def pos)
qed

text \<open>
  What the check of the current input does guard. When a load completes while the
  pane's current input is another object than the one loaded, or none, whatever the
  outcome, no navigator is created or disposed, the navigator field and the input stay
  as they were, and no model is set on the widget: the calls the pane makes, if any,
  are \<^verbatim>\<open>openEditor\<close> calls. When the load completes with a text diff model, or the
  input is not a diff editor input, the pane makes no call at all: only the load leaves
  the pending ones, and the promise is fulfilled.
\<close>

theorem late_result_updates_nothing:
  assumes load: "k < length (pending s)" "pending s ! k = (inp, opts)"
    and late: "stale s inp"
  shows "navigators (fst (settle h s k out)) = navigators s
         \<and> diffNavigator (fst (settle h s k out)) = diffNavigator s
         \<and> input (fst (settle h s k out)) = input s
         \<and> (\<exists>cs. calls (fst (settle h s k out)) = calls s @ cs
                \<and> list_all is_OpenEditor cs)
         \<and> (is_TextDiffEditorModel m \<or> \<not> is_DiffEditorInput (snd inp) \<longrightarrow>
              settle h s k (Resolved m) =
                (s\<lparr>pending := without k (pending s)\<rparr>, Some Fulfilled))"
proof -
  define s1 where "s1 = s\<lparr>pending := without k (pending s)\<rparr>"
  have late1: "stale s1 inp"
    using late by (simp add: s1_def stale_def)
  have same: "navigators s1 = navigators s" "diffNavigator s1 = diffNavigator s"
    "input s1 = input s" "calls s1 = calls s"
    by (simp_all add: s1_def)
  have st: "settle h s k out =
      (case out of
         Resolved m \<Rightarrow> (fst (onResolved h s1 inp opts m), Some (snd (onResolved h s1 inp opts m)))
       | Failed err \<Rightarrow> (fst (onRejected s1 inp opts err), Some (snd (onRejected s1 inp opts err))))"
    for out
    using load by (simp add: settle_def s1_def Let_def split_beta split: outcome.splits)
  have first: "navigators (fst (settle h s k out)) = navigators s
         \<and> diffNavigator (fst (settle h s k out)) = diffNavigator s
         \<and> input (fst (settle h s k out)) = input s
         \<and> (\<exists>cs. calls (fst (settle h s k out)) = calls s @ cs
                \<and> list_all is_OpenEditor cs)"
  proof (cases out)
    case (Resolved m')
    with late_onResolved [OF late1, of h opts m'] same show ?thesis
      by (simp add: st)
  next
    case (Failed err)
    with late_onRejected [of s1 inp opts err] same show ?thesis
      by (simp add: st)
  qed
  have second: "is_TextDiffEditorModel m \<or> \<not> is_DiffEditorInput (snd inp) \<longrightarrow>
      settle h s k (Resolved m) = (s1, Some Fulfilled)"
    using late_text_model [OF late1, of m h opts] by (simp add: st)
  from first second show ?thesis
    by (simp add: s1_def)
qed

theorem late_result_updates_nothing_witness:
  "0 < length (pending pane_A_then_B)
   \<and> pending pane_A_then_B ! 0 = (input_A, None)
   \<and> stale pane_A_then_B input_A
   \<and> navigators (fst (settle default_host pane_A_then_B 0
                        (Resolved (TextDiffEditorModel 100)))) = []
   \<and> diffNavigator (fst (settle default_host pane_A_then_B 0
                           (Resolved (TextDiffEditorModel 100)))) = None
   \<and> input (fst (settle default_host pane_A_then_B 0
                     (Resolved (TextDiffEditorModel 100)))) = Some input_B
   \<and> settle default_host pane_A_then_B 0 (Resolved (TextDiffEditorModel 100)) =
       (pane_A_then_B\<lparr>pending := [(input_B, None)]\<rparr>, Some Fulfilled)"
proof -
  have load: "0 < length (pending pane_A_then_B)"
    "pending pane_A_then_B ! 0 = (input_A, None)"
    by (simp_all add: pending_A_then_B)
  have late: "stale pane_A_then_B input_A"
    by (simp add: stale_def input_A_then_B input_A_def input_B_def)
  have navs: "navigators pane_A_then_B = []" "diffNavigator pane_A_then_B = None"
    by (simp_all add: pane_A_then_B_def pane_defs example_defs Let_def)
  from late_result_updates_nothing [OF load late, of default_host
      "Resolved (TextDiffEditorModel 100)" "TextDiffEditorModel 100"] load late
  show ?thesis
    by (simp add: navs input_A_then_B pending_A_then_B without_def)
qed

subsection \<open>Overlapping loads\<close>

text \<open>
  C1 says that at most one navigator is live at a time, and that a navigator created
  for one input is disposed before a navigator for another input is created. The
  pane breaks this on the run \<open>overlapping_loads\<close>: both loads of \<open>input_A\<close> pass the
  check of the current input, each creates a navigator, and the first of the two is
  never disposed. Two navigators are live at the end of the run. When \<open>input_B\<close> is
  then set and loaded, \<^verbatim>\<open>setInput\<close> disposes the navigator the pane holds (the
  second), and the navigator for \<open>input_B\<close> is created while the first navigator for
  \<open>input_A\<close> is still live.
\<close>

theorem overlapping_loads_leave_navigator_live:
  "navigators (exec default_host fresh_pane overlapping_loads) =
     [\<lparr>alwaysRevealFirst = True, disposed = False, created_for = 1\<rparr>,
      \<lparr>alwaysRevealFirst = True, disposed = False, created_for = 1\<rparr>]
   \<and> diffNavigator (exec default_host fresh_pane overlapping_loads) = Some 1
   \<and> live (exec default_host fresh_pane overlapping_loads) = [0, 1]
   \<and> navigators (exec default_host fresh_pane
        (overlapping_loads @
           [SetInput input_B None, Settle 0 (Resolved (TextDiffEditorModel 200))])) =
     [\<lparr>alwaysRevealFirst = True, disposed = False, created_for = 1\<rparr>,
      \<lparr>alwaysRevealFirst = True, disposed = True, created_for = 1\<rparr>,
      \<lparr>alwaysRevealFirst = True, disposed = False, created_for = 2\<rparr>]"
  by (simp add: overlapping_loads_def live_def pane_defs example_defs Let_def)

subsection \<open>Runs without overlapping loads\<close>

lemma set_live:
  "set (live s) = {n. n < length (navigators s) \<and> \<not> disposed (navigators s ! n)}"
  by (auto simp add: live_def)

lemma live_empty_iff:
  "live s = [] \<longleftrightarrow> (\<forall>n < length (navigators s). disposed (navigators s ! n))"
  using set_live [of s] by (auto simp add: set_empty [symmetric] simp del: set_empty)

lemma live_cong:
  "navigators s' = navigators s \<Longrightarrow> live s' = live s"
  by (simp add: live_def)

lemma one_at_a_time_cong:
  assumes "navigators s' = navigators s" "diffNavigator s' = diffNavigator s"
    "pending s' = pending s"
  shows "one_at_a_time s' = one_at_a_time s"
  using assms by (simp add: one_at_a_time_def navigator_known_def live_def cong: option.case_cong)

lemma one_at_a_time_dead:
  assumes "navigator_known s" "live s = []" "length (pending s) \<le> 1"
  shows "one_at_a_time s"
  using assms by (simp add: one_at_a_time_def)

lemma setInput_early:
  assumes "\<not> detect_forceOpen opts" and "matches h inp (input s)"
  shows "fst (setInput h s inp opts) =
           s\<lparr>input := Some inp, options := opts,
              calls := calls s @
                (case opts of
                   None \<Rightarrow> []
                 | Some textOptions \<Rightarrow>
                     if has_apply textOptions then [ApplyOptions textOptions] else [])\<rparr>"
  using assms by (cases opts) (simp_all add: setInput_def super_setInput_def Let_def)

lemma setInput_load:
  assumes "detect_forceOpen opts \<or> \<not> matches h inp (input s)"
  shows "fst (setInput h s inp opts) =
           (disposeNavigator (super_setInput s inp opts))
             \<lparr>calls := calls (disposeNavigator (super_setInput s inp opts)) @ [Resolve inp],
              pending := pending (disposeNavigator (super_setInput s inp opts)) @ [(inp, opts)]\<rparr>"
proof -
  from assms have "\<not> (\<not> detect_forceOpen opts \<and> matches h inp (input s))"
    by blast
  then show ?thesis
    unfolding setInput_def Let_def by (simp only: if_False fst_conv)
qed

lemma live_disposeNavigator:
  assumes "navigator_known s"
  shows "set (live (disposeNavigator s)) = set (live s) - set_option (diffNavigator s)"
  using assms
  by (auto simp add: set_live disposeNavigator_def navigator_known_def nth_list_update
      split: option.splits if_splits)

lemma one_at_a_time_disposeNavigator:
  assumes "one_at_a_time s"
  shows "live (disposeNavigator s) = []"
proof -
  from assms have "navigator_known s" "set (live s) \<subseteq> set_option (diffNavigator s)"
    by (simp_all add: one_at_a_time_def)
  with live_disposeNavigator [of s] have "set (live (disposeNavigator s)) = {}"
    by auto
  then show ?thesis by simp
qed

lemma navigator_known_disposeNavigator:
  "navigator_known s \<Longrightarrow> navigator_known (disposeNavigator s)"
  by (auto simp add: navigator_known_def disposeNavigator_def split: option.splits)

lemma one_at_a_time_setInput:
  assumes inv: "one_at_a_time s" and idle: "pending s = []"
  shows "one_at_a_time (fst (setInput h s inp opts))"
proof (cases "\<not> detect_forceOpen opts \<and> matches h inp (input s)")
  case True
  then have "navigators (fst (setInput h s inp opts)) = navigators s"
    "diffNavigator (fst (setInput h s inp opts)) = diffNavigator s"
    "pending (fst (setInput h s inp opts)) = pending s"
    by (simp_all add: setInput_early)
  from one_at_a_time_cong [OF this] inv show ?thesis
    by simp
next
  case False
  define s1 where "s1 = super_setInput s inp opts"
  have "one_at_a_time s1 = one_at_a_time s"
    by (rule one_at_a_time_cong) (simp_all add: s1_def super_setInput_def)
  with inv have inv1: "one_at_a_time s1" by simp
  from False have "detect_forceOpen opts \<or> \<not> matches h inp (input s)"
    by blast
  from setInput_load [OF this]
  have eq: "fst (setInput h s inp opts) =
      (disposeNavigator s1)\<lparr>calls := calls (disposeNavigator s1) @ [Resolve inp],
        pending := pending (disposeNavigator s1) @ [(inp, opts)]\<rparr>"
    by (simp only: s1_def)
  have "live (fst (setInput h s inp opts)) = live (disposeNavigator s1)"
    by (rule live_cong) (simp add: eq)
  with one_at_a_time_disposeNavigator [OF inv1]
  have dead: "live (fst (setInput h s inp opts)) = []" by simp
  have known: "navigator_known (fst (setInput h s inp opts))"
    using inv by (simp add: one_at_a_time_def navigator_known_setInput)
  have "pending s1 = []"
    using idle by (simp add: s1_def super_setInput_def)
  then have "pending (fst (setInput h s inp opts)) = [(inp, opts)]"
    by (simp add: eq)
  with dead known show ?thesis
    by (intro one_at_a_time_dead) simp_all
qed

lemma one_at_a_time_clearInput:
  assumes inv: "one_at_a_time s"
  shows "one_at_a_time (clearInput s)"
proof (rule one_at_a_time_dead)
  show "navigator_known (clearInput s)"
    using inv by (simp add: one_at_a_time_def navigator_known_clearInput)
  have "live (clearInput s) = live (disposeNavigator s)"
    by (rule live_cong) (simp add: clearInput_def super_clearInput_def Let_def)
  with one_at_a_time_disposeNavigator [OF inv] show "live (clearInput s) = []"
    by simp
  have "pending (clearInput s) = pending s"
    by (simp add: clearInput_def super_clearInput_def Let_def)
  with inv show "length (pending (clearInput s)) \<le> 1"
    by (simp add: one_at_a_time_def)
qed

lemma one_at_a_time_dispose:
  assumes inv: "one_at_a_time s"
  shows "one_at_a_time (dispose s)"
proof (rule one_at_a_time_dead)
  show "navigator_known (dispose s)"
    using inv by (simp add: one_at_a_time_def navigator_known_dispose)
  have "live (dispose s) = live (disposeNavigator s)"
    by (rule live_cong) (simp add: dispose_def super_dispose_def)
  with one_at_a_time_disposeNavigator [OF inv] show "live (dispose s) = []"
    by simp
  have "pending (dispose s) = pending s"
    by (simp add: dispose_def super_dispose_def)
  with inv show "length (pending (dispose s)) \<le> 1"
    by (simp add: one_at_a_time_def)
qed

lemma onResolved_navigators:
  "navigators (fst (onResolved h s inp opts m)) = navigators s
     \<and> diffNavigator (fst (onResolved h s inp opts m)) = diffNavigator s
   \<or> (\<exists>r. navigators (fst (onResolved h s inp opts m)) = navigators s @ [r]
          \<and> \<not> disposed r
          \<and> diffNavigator (fst (onResolved h s inp opts m)) = Some (length (navigators s)))"
  by (cases "snd inp")
    (auto simp add: onResolved_def openAsBinary_def Let_def split: option.splits)

lemma onResolved_pending:
  "pending (fst (onResolved h s inp opts m)) = pending s"
  by (cases "snd inp")
    (auto simp add: onResolved_def openAsBinary_def Let_def split: option.splits)

lemma one_at_a_time_settle:
  assumes inv: "one_at_a_time s"
  shows "one_at_a_time (fst (settle h s k out))"
proof (cases "k < length (pending s)")
  case False
  with inv show ?thesis by (simp add: settle_def)
next
  case True
  with inv have dead: "live s = []" and one: "length (pending s) = 1" and k: "k = 0"
    by (auto simp add: one_at_a_time_def)
  define s1 where "s1 = s\<lparr>pending := without k (pending s)\<rparr>"
  define inp where "inp = fst (pending s ! k)"
  define opts where "opts = snd (pending s ! k)"
  have idle: "pending s1 = []"
    using one k by (cases "pending s") (simp_all add: s1_def without_def)
  have navs1: "navigators s1 = navigators s" "diffNavigator s1 = diffNavigator s"
    by (simp_all add: s1_def)
  have known: "navigator_known (fst (settle h s k out))"
    using inv by (simp add: one_at_a_time_def navigator_known_settle)
  have all_dead: "\<forall>n < length (navigators s). disposed (navigators s ! n)"
    using dead by (simp add: live_empty_iff)
  show ?thesis
  proof (cases out)
    case (Failed err)
    with True have eq: "fst (settle h s k out) = fst (onRejected s1 inp opts err)"
      by (simp add: settle_def s1_def inp_def opts_def Let_def split_beta)
    have navs: "navigators (fst (settle h s k out)) = navigators s"
      and pend: "pending (fst (settle h s k out)) = []"
      using late_onRejected [of s1 inp opts err] by (simp_all add: eq navs1 idle)
    from live_cong [OF navs] dead have "live (fst (settle h s k out)) = []"
      by simp
    with known pend show ?thesis
      by (intro one_at_a_time_dead) simp_all
  next
    case (Resolved m)
    with True have eq: "fst (settle h s k out) = fst (onResolved h s1 inp opts m)"
      by (simp add: settle_def s1_def inp_def opts_def Let_def split_beta)
    have pend: "pending (fst (settle h s k out)) = []"
      by (simp add: eq onResolved_pending idle)
    from onResolved_navigators [of h s1 inp opts m]
    show ?thesis
    proof (elim disjE conjE exE)
      assume "navigators (fst (onResolved h s1 inp opts m)) = navigators s1"
      then have "navigators (fst (settle h s k out)) = navigators s"
        by (simp add: eq navs1)
      from live_cong [OF this] dead have "live (fst (settle h s k out)) = []"
        by simp
      with known pend show ?thesis
        by (intro one_at_a_time_dead) simp_all
    next
      fix r
      assume a: "navigators (fst (onResolved h s1 inp opts m)) = navigators s1 @ [r]"
        "\<not> disposed r"
        "diffNavigator (fst (onResolved h s1 inp opts m)) = Some (length (navigators s1))"
      have "set (live (fst (settle h s k out))) \<subseteq> {length (navigators s)}"
        using a all_dead by (auto simp add: set_live eq navs1 nth_append)
      with a known pend show ?thesis
        by (simp add: one_at_a_time_def eq navs1)
    qed
  qed
qed

lemma one_at_a_time_step:
  assumes inv: "one_at_a_time s"
    and idle: "case e of SetInput inp opts \<Rightarrow> pending s = [] | _ \<Rightarrow> True"
  shows "one_at_a_time (step h s e)"
proof (cases e)
  case (SetInput inp opts)
  with inv idle show ?thesis by (simp add: one_at_a_time_setInput)
next
  case ClearInput
  with inv show ?thesis by (simp add: one_at_a_time_clearInput)
next
  case Dispose
  with inv show ?thesis by (simp add: one_at_a_time_dispose)
next
  case (Settle k out)
  with inv show ?thesis by (simp add: one_at_a_time_settle)
next
  case (Updated k c)
  have "one_at_a_time s' = one_at_a_time s" if "onUpdated c s = Inr s'" for s'
    using that
    by (intro one_at_a_time_cong)
      (auto simp add: onUpdated_def updateEnablement_def split: option.splits)
  with inv Updated show ?thesis
    by (simp split: sum.splits)
next
  case (RunAction nxt)
  have "one_at_a_time s' = one_at_a_time s" if "run s a = Inr s'" for s' a
    using that
    by (intro one_at_a_time_cong) (auto simp add: run_def split: option.splits if_splits)
  with inv RunAction show ?thesis
    by (simp split: sum.splits)
qed

lemma one_at_a_time_exec:
  "one_at_a_time s \<Longrightarrow> no_overlap h s es \<Longrightarrow> one_at_a_time (exec h s es)"
  by (induction es arbitrary: s) (simp_all add: one_at_a_time_step)

text \<open>
  In a run from the creation of the pane in which \<^verbatim>\<open>setInput\<close> is never called while
  a load is in flight, at most one navigator is live at any time, and it is the one the
  pane holds.
\<close>

theorem one_live_navigator_without_overlap:
  assumes "no_overlap h (createEditorControl h p) es"
  shows "length (live (exec h (createEditorControl h p) es)) \<le> 1
         \<and> set (live (exec h (createEditorControl h p) es))
             \<subseteq> set_option (diffNavigator (exec h (createEditorControl h p) es))"
proof -
  have "one_at_a_time (createEditorControl h p)"
    by (simp add: one_at_a_time_def navigator_known_def live_def createEditorControl_def)
  from one_at_a_time_exec [OF this assms]
  have sub: "set (live (exec h (createEditorControl h p) es))
      \<subseteq> set_option (diffNavigator (exec h (createEditorControl h p) es))"
    by (simp add: one_at_a_time_def)
  have "distinct (live (exec h (createEditorControl h p) es))"
    by (simp add: live_def)
  then have "length (live (exec h (createEditorControl h p) es)) =
      card (set (live (exec h (createEditorControl h p) es)))"
    by (simp add: distinct_card)
  also have "\<dots> \<le> card (set_option (diffNavigator (exec h (createEditorControl h p) es)))"
    using sub by (intro card_mono) simp_all
  also have "\<dots> \<le> 1"
    by (cases "diffNavigator (exec h (createEditorControl h p) es)") simp_all
  finally show ?thesis using sub by simp
qed

theorem one_live_navigator_without_overlap_witness:
  "no_overlap default_host (createEditorControl default_host 0)
     [SetInput input_A None, Settle 0 (Resolved (TextDiffEditorModel 100)),
      SetInput input_B None, Settle 0 (Resolved (TextDiffEditorModel 200))]
   \<and> length (live (exec default_host (createEditorControl default_host 0)
        [SetInput input_A None, Settle 0 (Resolved (TextDiffEditorModel 100)),
         SetInput input_B None, Settle 0 (Resolved (TextDiffEditorModel 200))])) \<le> 1"
proof -
  have seq: "no_overlap default_host (createEditorControl default_host 0)
     [SetInput input_A None, Settle 0 (Resolved (TextDiffEditorModel 100)),
      SetInput input_B None, Settle 0 (Resolved (TextDiffEditorModel 200))]"
    by code_simp
  from one_live_navigator_without_overlap [OF seq] seq show ?thesis
    by (simp del: exec.simps no_overlap.simps)
qed

subsection \<open>An enabled action has a navigator to call\<close>

lemma step_keeps_navigator:
  assumes "diffNavigator s = Some n"
  shows "\<exists>n'. diffNavigator (step h s e) = Some n'"
proof (cases e)
  case (SetInput inp opts)
  with assms show ?thesis
    by (cases "\<not> detect_forceOpen opts \<and> matches h inp (input s)")
      (auto simp add: setInput_early setInput_load super_setInput_def)
next
  case ClearInput
  with assms show ?thesis
    by (simp add: clearInput_def super_clearInput_def Let_def)
next
  case Dispose
  with assms show ?thesis
    by (simp add: dispose_def super_dispose_def)
next
  case (Settle k out)
  show ?thesis
  proof (cases "k < length (pending s)")
    case False
    with assms Settle show ?thesis by (simp add: settle_def)
  next
    case True
    define s1 where "s1 = s\<lparr>pending := without k (pending s)\<rparr>"
    have n1: "diffNavigator s1 = Some n"
      using assms by (simp add: s1_def)
    show ?thesis
    proof (cases out)
      case (Resolved m)
      with True Settle
      have "step h s e = fst (onResolved h s1 (fst (pending s ! k)) (snd (pending s ! k)) m)"
        by (simp add: settle_def s1_def Let_def split_beta)
      with onResolved_navigators [of h s1 "fst (pending s ! k)" "snd (pending s ! k)" m] n1
      show ?thesis by auto
    next
      case (Failed err)
      with True Settle
      have "step h s e = fst (onRejected s1 (fst (pending s ! k)) (snd (pending s ! k)) err)"
        by (simp add: settle_def s1_def Let_def split_beta)
      with late_onRejected [of s1 "fst (pending s ! k)" "snd (pending s ! k)" err] n1
      show ?thesis by simp
    qed
  qed
next
  case (Updated k c)
  with assms show ?thesis
    by (simp add: onUpdated_sets_enablement)
next
  case (RunAction nxt)
  with assms show ?thesis
    by (simp add: run_def)
qed

lemma step_enabled_has_navigator:
  assumes "enabled (nextDiffAction s) \<or> enabled (previousDiffAction s) \<longrightarrow>
      diffNavigator s \<noteq> None"
  shows "enabled (nextDiffAction (step h s e)) \<or> enabled (previousDiffAction (step h s e)) \<longrightarrow>
      diffNavigator (step h s e) \<noteq> None"
proof (cases "diffNavigator s")
  case (Some n)
  from step_keeps_navigator [OF this, of h e] show ?thesis by auto
next
  case None
  with assms have off: "\<not> enabled (nextDiffAction s)" "\<not> enabled (previousDiffAction s)"
    by auto
  show ?thesis
  proof (cases "is_Updated e")
    case False
    from step_actions [OF this, of h s] off show ?thesis by simp
  next
    case True
    then obtain k c where "e = Updated k c" by (cases e) simp_all
    with None have "step h s e = s"
      by (simp add: onUpdated_def updateEnablement_def)
    with off show ?thesis by simp
  qed
qed

text \<open>
  In every state the pane reaches from its creation, an action that is enabled finds a
  navigator: the enabled flag is only ever written by the UPDATED listener, which reads
  the navigator field, and the field is never unset.
\<close>

lemma enabled_action_has_navigator:
  assumes "s = exec h (createEditorControl h p) es"
    and "enabled (nextDiffAction s) \<or> enabled (previousDiffAction s)"
  shows "\<exists>n. diffNavigator s = Some n"
proof -
  have "enabled (nextDiffAction (exec h s0 es)) \<or> enabled (previousDiffAction (exec h s0 es)) \<longrightarrow>
      diffNavigator (exec h s0 es) \<noteq> None"
    if "enabled (nextDiffAction s0) \<or> enabled (previousDiffAction s0) \<longrightarrow>
      diffNavigator s0 \<noteq> None" for s0
    using that
  proof (induction es arbitrary: s0)
    case Nil
    then show ?case by simp
  next
    case (Cons e es)
    from Cons.IH [OF step_enabled_has_navigator [OF Cons.prems]] show ?case by simp
  qed
  from this [of "createEditorControl h p"] assms show ?thesis
    by (auto simp add: createEditorControl_def NavigateAction_def)
qed

end
